theory Spec2Isabelle
  imports Main "HOL-Library.Char_ord" "HOL-Library.List_Lexorder"
begin

section \<open>makesite: a shallow embedding of the rendering pipeline\<close>

text \<open>
  The source is \<^verbatim>\<open>src/makesite.py\<close>. A Python \<^verbatim>\<open>str\<close> is modelled as a
  \<^typ>\<open>string\<close> whose characters are the code points below 256; strings are compared as
  Python compares them, code point by code point (the lexicographic order on lists over the
  order on characters). A \<^verbatim>\<open>dict\<close> with string keys is a map; all the values that the
  functions below read or write are strings. Every exception that a function of the source can
  raise is a value of \<open>error\<close>, and a function that can raise returns \<open>error + 'a\<close>.

  The scope of the model: every statement is about filenames and texts made of code points
  below 256. Among them the decimal digits are the ten ASCII digits; the digit class of
  Python's \<^verbatim>\<open>re\<close> also matches the other decimal digits of Unicode, which no
  \<^typ>\<open>char\<close> stands for.
\<close>

subsection \<open>Errors, dictionaries, the file system\<close>

datatype error =
    IOError string          \<comment> \<open>the path that could not be opened or created\<close>
  | AttributeError string   \<comment> \<open>\<^verbatim>\<open>'NoneType' object has no attribute '...'\<close>: the attribute\<close>
  | ValueError string       \<comment> \<open>\<^verbatim>\<open>strptime\<close> on a string that is no date: the string\<close>
  | KeyError string         \<comment> \<open>the missing key\<close>
  | TypeError string        \<comment> \<open>a keyword argument given twice: the argument\<close>
  | TemplateError string    \<comment> \<open>whatever the template engine raises\<close>

type_synonym dict = "string \<rightharpoonup> string"

type_synonym files = "string \<rightharpoonup> string"

subsection \<open>String primitives of Python\<close>

text \<open>\<^verbatim>\<open>str.isspace\<close> on one character, for the code points below 256.\<close>

definition isspace :: "char \<Rightarrow> bool" where
  "isspace c = (c \<in> set [CHR 0x09, CHR 0x0A, CHR 0x0B, CHR 0x0C, CHR 0x0D,
                          CHR 0x1C, CHR 0x1D, CHR 0x1E, CHR 0x1F, CHR 0x20,
                          CHR 0x85, CHR 0xA0])"

text \<open>\<^verbatim>\<open>s.strip()\<close>: leading and trailing whitespace removed.\<close>

definition strip :: "string \<Rightarrow> string" where
  "strip s = rev (dropWhile isspace (rev (dropWhile isspace s)))"

text \<open>
  \<^verbatim>\<open>text.find(sub)\<close>: the lowest index at which \<open>sub\<close> occurs in \<open>text\<close>, \<open>-1\<close> when
  it does not occur. The empty string occurs at index 0.
\<close>

fun str_find :: "string \<Rightarrow> string \<Rightarrow> int" where
  "str_find [] sub = (if sub = [] then 0 else - 1)"
| "str_find (c # cs) sub =
     (if take (length sub) (c # cs) = sub then 0
      else (let r = str_find cs sub in if r < 0 then - 1 else r + 1))"

text \<open>\<^verbatim>\<open>s.endswith(suffix)\<close> and \<^verbatim>\<open>s.endswith((suffix1, suffix2, ...))\<close>.\<close>

definition endswith :: "string \<Rightarrow> string \<Rightarrow> bool" where
  "endswith s suffix = (length suffix \<le> length s \<and> drop (length s - length suffix) s = suffix)"

definition endswith_any :: "string \<Rightarrow> string list \<Rightarrow> bool" where
  "endswith_any s suffixes = list_ex (endswith s) suffixes"

text \<open>
  \<^verbatim>\<open>text.split()\<close> with no argument: the maximal runs of characters that are not
  whitespace, in order; \<open>cur\<close> is the run being read.
\<close>

fun split_acc :: "string \<Rightarrow> string \<Rightarrow> string list" where
  "split_acc cur [] = (if cur = [] then [] else [cur])"
| "split_acc cur (c # cs) =
     (if isspace c then (if cur = [] then split_acc [] cs else cur # split_acc [] cs)
      else split_acc (cur @ [c]) cs)"

definition split_ws :: "string \<Rightarrow> string list" where
  "split_ws text = split_acc [] text"

text \<open>\<^verbatim>\<open>sep.join(parts)\<close>.\<close>

fun join :: "string \<Rightarrow> string list \<Rightarrow> string" where
  "join sep [] = []"
| "join sep [x] = x"
| "join sep (x # y # ys) = x @ sep @ join sep (y # ys)"

text \<open>\<^verbatim>\<open>os.path.basename\<close> and \<^verbatim>\<open>os.path.dirname\<close> of \<^verbatim>\<open>posixpath\<close>.\<close>

definition basename :: "string \<Rightarrow> string" where
  "basename p = rev (takeWhile (\<lambda>c. c \<noteq> CHR ''/'') (rev p))"

definition dirname :: "string \<Rightarrow> string" where
  "dirname p =
     (let head = take (length p - length (basename p)) p
      in if head \<noteq> [] \<and> \<not> list_all (\<lambda>c. c = CHR ''/'') head
         then rev (dropWhile (\<lambda>c. c = CHR ''/'') (rev head)) else head)"

subsection \<open>fread, fwrite\<close>

text \<open>
  The file system is a map from paths to file texts. \<^verbatim>\<open>fread\<close> raises when the path
  names no file. \<^verbatim>\<open>fwrite\<close> creates the directory of the path when it is missing, which
  raises for a path with no directory part (\<^verbatim>\<open>os.makedirs('')\<close>), and then stores the text.
  The map has files only: the model does not raise where the operating system refuses a write
  (a path that names a directory or lies below a file, missing rights), and a text is read
  back as it was written, without the translation of line ends of Python's text mode.
\<close>

definition fread :: "files \<Rightarrow> string \<Rightarrow> error + string" where
  "fread fs filename = (case fs filename of None \<Rightarrow> Inl (IOError filename) | Some text \<Rightarrow> Inr text)"

definition fwrite :: "files \<Rightarrow> string \<Rightarrow> string \<Rightarrow> error + files" where
  "fwrite fs filename text =
     (let basedir = dirname filename
      in if basedir = [] then Inl (IOError basedir) else Inr (fs(filename \<mapsto> text)))"

subsection \<open>separate_content_and_variables\<close>

definition default_boundary :: string where
  "default_boundary = ''{# /variables #}''"

definition separate_content_and_variables :: "string \<Rightarrow> string \<Rightarrow> string \<times> string" where
  "separate_content_and_variables text boundary =
     (let pos = str_find text boundary
      in if pos > 0
         then (strip (take (nat pos) text), strip (drop (nat pos + length boundary) text))
         else ([], text))"

subsection \<open>The filename pattern\<close>

text \<open>
  \<^verbatim>\<open>re.search('^(?:(\\d\\d\\d\\d-\\d\\d-\\d\\d)-)?(.+)$', date_slug)\<close>. Among the code
  points below 256, \<^verbatim>\<open>\\d\<close> matches the ten ASCII digits. \<^verbatim>\<open>.\<close> matches every
  character but the line feed, and \<^verbatim>\<open>$\<close> matches at the end of the string and just
  before a line feed that ends the string. The optional group is tried first; when the rest
  of the pattern fails after it, the pattern is tried again without the group.
\<close>

datatype pat = Digit | Lit char

fun pat_matches :: "pat \<Rightarrow> char \<Rightarrow> bool" where
  "pat_matches Digit c = (c \<in> set ''0123456789'')"
| "pat_matches (Lit l) c = (c = l)"

definition date_pattern :: "pat list" where
  "date_pattern = [Digit, Digit, Digit, Digit, Lit (CHR ''-''), Digit, Digit, Lit (CHR ''-''),
                   Digit, Digit]"

text \<open>\<open>date_token d\<close>: the whole of \<open>d\<close> matches \<^verbatim>\<open>\\d\\d\\d\\d-\\d\\d-\\d\\d\<close>.\<close>

definition date_token :: "string \<Rightarrow> bool" where
  "date_token d = list_all2 pat_matches date_pattern d"

text \<open>\<^verbatim>\<open>(.+)$\<close> at the start of \<open>r\<close>: the text of the group, when it matches.\<close>

definition match_rest :: "string \<Rightarrow> string option" where
  "match_rest r =
     (let w = takeWhile (\<lambda>c. c \<noteq> CHR 0x0A) r
      in if w \<noteq> [] \<and> (r = w \<or> r = w @ [CHR 0x0A]) then Some w else None)"

text \<open>The match object: \<open>group(1)\<close> (\<open>None\<close> when the date group took no part) and \<open>group(2)\<close>.\<close>

definition re_search :: "string \<Rightarrow> (string option \<times> string) option" where
  "re_search date_slug =
     (let with_date =
            (if date_token (take 10 date_slug) \<and> take 1 (drop 10 date_slug) = ''-''
             then (case match_rest (drop 11 date_slug) of
                     None \<Rightarrow> None
                   | Some w \<Rightarrow> Some (Some (take 10 date_slug), w))
             else None)
      in case with_date of
           Some m \<Rightarrow> Some m
         | None \<Rightarrow> (case match_rest date_slug of None \<Rightarrow> None | Some w \<Rightarrow> Some (None, w)))"

subsection \<open>format_date\<close>

text \<open>
  \<^verbatim>\<open>datetime.datetime.strptime(date, '%Y-%m-%d')\<close> on the strings that \<^verbatim>\<open>format_date\<close>
  is called with, which all have the shape of \<open>date_token\<close>: it returns the date when the year
  is at least 1, the month is between 1 and 12 and the day exists in that month of the
  proleptic Gregorian calendar, and raises \<^verbatim>\<open>ValueError\<close> otherwise. Strings of another
  shape that \<^verbatim>\<open>strptime\<close> accepts, such as \<^verbatim>\<open>2020-1-1\<close>, never reach
  \<^verbatim>\<open>format_date\<close>; the model is not meant for them.
\<close>

definition digit_val :: "char \<Rightarrow> nat" where
  "digit_val c = of_char c - 48"

definition number :: "string \<Rightarrow> nat" where
  "number ds = foldl (\<lambda>n c. 10 * n + digit_val c) 0 ds"

definition is_leap :: "nat \<Rightarrow> bool" where
  "is_leap y = (if y mod 100 = 0 then y mod 400 = 0 else y mod 4 = 0)"

definition days_in_month :: "nat \<Rightarrow> nat \<Rightarrow> nat" where
  "days_in_month y m =
     (if m = 2 then (if is_leap y then 29 else 28)
      else if m \<in> set [4, 6, 9, 11] then 30 else 31)"

definition strptime_ymd :: "string \<Rightarrow> error + nat \<times> nat \<times> nat" where
  "strptime_ymd date =
     (let y = number (take 4 date); m = number (take 2 (drop 5 date)); d = number (drop 8 date)
      in if date_token date \<and> 1 \<le> y \<and> 1 \<le> m \<and> m \<le> 12 \<and> 1 \<le> d \<and> d \<le> days_in_month y m
         then Inr (y, m, d) else Inl (ValueError date))"

subsection \<open>The environment of a build\<close>

text \<open>
  What the source takes from outside its own file is a parameter of the model: the global
  \<^verbatim>\<open>date_format\<close> that \<^verbatim>\<open>main\<close> sets from the site's variables,
  \<^verbatim>\<open>datetime.strftime\<close>, \<^verbatim>\<open>commonmark.commonmark\<close>, the optional module
  \<^verbatim>\<open>add_parser\<close> (\<open>None\<close> when it is not in \<^verbatim>\<open>sys.modules\<close>), the Jinja template
  engine (it reads included templates from the file system and may raise), \<^verbatim>\<open>glob.glob\<close>
  and, for BeautifulSoup, the function that gives the text of the first element of an HTML
  document with a given id, \<open>None\<close> when \<^verbatim>\<open>soup.find(id=...)\<close> is \<^verbatim>\<open>None\<close>.
\<close>

record env =
  date_format :: string
  strftime :: "string \<Rightarrow> nat \<times> nat \<times> nat \<Rightarrow> string"
  commonmark :: "string \<Rightarrow> string"
  add_parser :: "(string \<Rightarrow> string \<Rightarrow> string) option"
  jinja :: "files \<Rightarrow> string \<Rightarrow> dict \<Rightarrow> error + string"
  glob :: "files \<Rightarrow> string \<Rightarrow> string list"
  soup_find_text :: "string \<Rightarrow> string \<Rightarrow> string option"

text \<open>\<^verbatim>\<open>date_format_override or date_format\<close>: an empty override is false in Python.\<close>

definition format_date :: "env \<Rightarrow> string \<Rightarrow> string option \<Rightarrow> error + string" where
  "format_date e date date_format_override =
     (let fmt = (case date_format_override of
                   None \<Rightarrow> date_format e
                 | Some f \<Rightarrow> if f = [] then date_format e else f)
      in case strptime_ymd date of Inl err \<Rightarrow> Inl err | Inr ymd \<Rightarrow> Inr (strftime e fmt ymd))"

subsection \<open>read_content\<close>

definition markdown_extensions :: "string list" where
  "markdown_extensions = [''.md'', ''.mkd'', ''.mkdn'', ''.mdown'', ''.markdown'']"

definition md_header :: string where
  "md_header = ''{% include 'md_header.html' %}''"

definition md_footer :: string where
  "md_footer = ''{% include 'md_footer.html' %}''"

text \<open>\<^verbatim>\<open>os.path.basename(filename).split('.')[0]\<close>: the basename up to its first dot.\<close>

definition date_slug_of :: "string \<Rightarrow> string" where
  "date_slug_of filename = takeWhile (\<lambda>c. c \<noteq> CHR ''.'') (basename filename)"

text \<open>The step \<^verbatim>\<open>Convert Markdown content to HTML\<close>, taken for a Markdown filename only.\<close>

definition markdown_step :: "env \<Rightarrow> string \<Rightarrow> string \<Rightarrow> string" where
  "markdown_step e filename text =
     (if endswith_any filename markdown_extensions
      then (case separate_content_and_variables text default_boundary of
              (variables, body) \<Rightarrow> variables @ md_header @ commonmark e body @ md_footer)
      else text)"

text \<open>The step \<^verbatim>\<open>Optional additional parsing\<close>.\<close>

definition additional_parsing :: "env \<Rightarrow> string \<Rightarrow> string \<Rightarrow> string" where
  "additional_parsing e filename text =
     (case add_parser e of None \<Rightarrow> text | Some parse \<Rightarrow> parse text filename)"

definition read_content :: "env \<Rightarrow> files \<Rightarrow> string \<Rightarrow> error + dict" where
  "read_content e fs filename =
     (case fread fs filename of
        Inl err \<Rightarrow> Inl err
      | Inr text \<Rightarrow>
          (case re_search (date_slug_of filename) of
             None \<Rightarrow> Inl (AttributeError ''group'')
           | Some (group1, group2) \<Rightarrow>
               (let date_ymd = (case group1 of None \<Rightarrow> ''1970-01-01'' | Some d \<Rightarrow> d)
                in case format_date e date_ymd None of
                     Inl err \<Rightarrow> Inl err
                   | Inr date \<Rightarrow>
                       (case format_date e date_ymd (Some ''%a, %d %b %Y %H:%M:%S +0000'') of
                          Inl err \<Rightarrow> Inl err
                        | Inr date_rfc_2822 \<Rightarrow>
                            Inr [''date'' \<mapsto> date,
                                 ''date_ymd'' \<mapsto> date_ymd,
                                 ''date_rfc_2822'' \<mapsto> date_rfc_2822,
                                 ''slug'' \<mapsto> group2,
                                 ''content'' \<mapsto>
                                   additional_parsing e filename (markdown_step e filename text)]))))"

subsection \<open>truncate\<close>

text \<open>
  \<^verbatim>\<open>' '.join((text).split()[:words])\<close>; the only call of the source passes the default
  \<open>words = 25\<close>, so the number of words is a natural number.
\<close>

definition truncate :: "string \<Rightarrow> nat \<Rightarrow> string" where
  "truncate text words = join '' '' (take words (split_ws text))"

subsection \<open>render\<close>

text \<open>
  \<^verbatim>\<open>render(html, **params)\<close>: a mapping with the key \<^verbatim>\<open>html\<close> gives the first
  parameter twice, which Python refuses; otherwise the template engine expands the template
  against the mapping.
\<close>

definition render :: "env \<Rightarrow> files \<Rightarrow> string \<Rightarrow> dict \<Rightarrow> error + string" where
  "render e fs html params =
     (if params ''html'' \<noteq> None then Inl (TypeError ''html'') else jinja e fs html params)"

subsection \<open>make_pages\<close>

text \<open>
  \<^verbatim>\<open>sorted(items, key=lambda x: x['date_ymd'], reverse=True)\<close>: a stable sort into
  descending order of the key, so records with equal keys keep their order. A record without
  the key raises \<^verbatim>\<open>KeyError\<close>.
\<close>

definition date_ymd_of :: "dict \<Rightarrow> string" where
  "date_ymd_of x = (case x ''date_ymd'' of None \<Rightarrow> [] | Some d \<Rightarrow> d)"

definition sorted_by_date_desc :: "dict list \<Rightarrow> error + dict list" where
  "sorted_by_date_desc items =
     (if list_ex (\<lambda>x. x ''date_ymd'' = None) items then Inl (KeyError ''date_ymd'')
      else Inr (rev (sort_key date_ymd_of (rev items))))"

text \<open>
  One turn of the loop of \<^verbatim>\<open>make_pages\<close>. The state is the file system, the mapping
  \<^verbatim>\<open>params\<close> of the builder, which \<^verbatim>\<open>params.update(context)\<close> changes, and the
  list \<^verbatim>\<open>items\<close>. The log line goes to the standard error stream, which is not part of
  the state.
\<close>

definition make_pages_step ::
  "env \<Rightarrow> string \<Rightarrow> string \<Rightarrow> files \<times> dict \<times> dict list \<Rightarrow> error + files \<times> dict \<times> dict list" where
  "make_pages_step e dst src_path st =
     (case st of (fs, params, items) \<Rightarrow>
        (case read_content e fs src_path of
           Inl err \<Rightarrow> Inl err
         | Inr context \<Rightarrow>
             (let params' = params ++ context
              in case render e fs dst params' of
                   Inl err \<Rightarrow> Inl err
                 | Inr dst_path \<Rightarrow>
                     (case context ''content'' of
                        None \<Rightarrow> Inl (KeyError ''content'')
                      | Some content \<Rightarrow>
                          (case render e fs content params' of
                             Inl err \<Rightarrow> Inl err
                           | Inr output \<Rightarrow>
                               (case fwrite fs dst_path output of
                                  Inl err \<Rightarrow> Inl err
                                | Inr fs' \<Rightarrow>
                                    Inr (fs', params',
                                         items @ [context(''dest_path'' \<mapsto> dst_path)])))))))"

fun make_pages_loop ::
  "env \<Rightarrow> string \<Rightarrow> string list \<Rightarrow> files \<times> dict \<times> dict list \<Rightarrow> error + files \<times> dict \<times> dict list" where
  "make_pages_loop e dst [] st = Inr st"
| "make_pages_loop e dst (src_path # rest) st =
     (case make_pages_step e dst src_path st of
        Inl err \<Rightarrow> Inl err
      | Inr st' \<Rightarrow> make_pages_loop e dst rest st')"

text \<open>
  \<^verbatim>\<open>make_pages(src, dst, layout, **params)\<close> returns the sorted list; the model returns
  the file system after the writes with it. The parameter \<^verbatim>\<open>layout\<close> is not used by
  the source. The mapping is taken as the keyword arguments that the call has accepted: a
  caller's mapping with one of the keys \<^verbatim>\<open>src\<close>, \<^verbatim>\<open>dst\<close>, \<^verbatim>\<open>layout\<close> makes the
  call itself raise \<^verbatim>\<open>TypeError\<close>, before the body runs.
\<close>

definition make_pages ::
  "env \<Rightarrow> files \<Rightarrow> string \<Rightarrow> string \<Rightarrow> string option \<Rightarrow> dict \<Rightarrow> error + files \<times> dict list" where
  "make_pages e fs src dst layout params =
     (case make_pages_loop e dst (glob e fs src) (fs, params, []) of
        Inl err \<Rightarrow> Inl err
      | Inr (fs', params', items) \<Rightarrow>
          (case sorted_by_date_desc items of
             Inl err \<Rightarrow> Inl err
           | Inr pages \<Rightarrow> Inr (fs', pages)))"

subsection \<open>get_title_and_summary\<close>

text \<open>
  \<^verbatim>\<open>soup.find(id="title").text\<close> is evaluated first, then
  \<^verbatim>\<open>truncate(soup.find(id="post").text)\<close>; \<^verbatim>\<open>.text\<close> of \<^verbatim>\<open>None\<close> raises
  \<^verbatim>\<open>AttributeError\<close>.
\<close>

definition get_title_and_summary :: "env \<Rightarrow> files \<Rightarrow> string \<Rightarrow> error + string \<times> string" where
  "get_title_and_summary e fs path =
     (case fread fs path of
        Inl err \<Rightarrow> Inl err
      | Inr html \<Rightarrow>
          (case soup_find_text e html ''title'' of
             None \<Rightarrow> Inl (AttributeError ''text'')
           | Some title \<Rightarrow>
               (case soup_find_text e html ''post'' of
                  None \<Rightarrow> Inl (AttributeError ''text'')
                | Some post \<Rightarrow> Inr (title, truncate post 25))))"

subsection \<open>make_list\<close>

text \<open>
  The body of the loop of \<^verbatim>\<open>make_list\<close> up to \<^verbatim>\<open>items.append(item)\<close>: the
  fragment of one post. \<^verbatim>\<open>dict(params, **post)\<close> is a new mapping, in which the keys of
  the post win.
\<close>

definition render_item :: "env \<Rightarrow> files \<Rightarrow> string \<Rightarrow> dict \<Rightarrow> dict \<Rightarrow> error + string" where
  "render_item e fs item_layout params post =
     (let item_params = params ++ post
      in case item_params ''dest_path'' of
           None \<Rightarrow> Inl (KeyError ''dest_path'')
         | Some dest_path \<Rightarrow>
             (case get_title_and_summary e fs dest_path of
                Inl err \<Rightarrow> Inl err
              | Inr (title, summary) \<Rightarrow>
                  render e fs item_layout
                    (item_params(''title'' \<mapsto> title, ''summary'' \<mapsto> summary))))"

text \<open>
  The loop \<^verbatim>\<open>for k, post in enumerate(posts)\<close>, from the index \<open>k\<close> on, with the
  fragments gathered so far. The test of the limit comes after the fragment is appended.
\<close>

fun make_list_loop ::
  "env \<Rightarrow> files \<Rightarrow> string \<Rightarrow> int option \<Rightarrow> dict \<Rightarrow> nat \<Rightarrow> dict list \<Rightarrow> string list \<Rightarrow> error + string list" where
  "make_list_loop e fs item_layout limit params k [] items = Inr items"
| "make_list_loop e fs item_layout limit params k (post # posts) items =
     (case render_item e fs item_layout params post of
        Inl err \<Rightarrow> Inl err
      | Inr item \<Rightarrow>
          (if (case limit of None \<Rightarrow> False | Some l \<Rightarrow> int k + 1 \<ge> l) then Inr (items @ [item])
           else make_list_loop e fs item_layout limit params (k + 1) posts (items @ [item])))"

definition make_list_items ::
  "env \<Rightarrow> files \<Rightarrow> string \<Rightarrow> int option \<Rightarrow> dict \<Rightarrow> dict list \<Rightarrow> error + string list" where
  "make_list_items e fs item_layout limit params posts =
     make_list_loop e fs item_layout limit params 0 posts []"

text \<open>
  \<^verbatim>\<open>make_list\<close> writes one file; the model returns the file system after it. As for
  \<^verbatim>\<open>make_pages\<close>, the mapping is the keyword arguments that the call has accepted.
\<close>

definition make_list ::
  "env \<Rightarrow> files \<Rightarrow> dict list \<Rightarrow> string \<Rightarrow> string \<Rightarrow> string \<Rightarrow> int option \<Rightarrow> dict \<Rightarrow> error + files" where
  "make_list e fs posts dst list_layout item_layout limit params =
     (case make_list_items e fs item_layout limit params posts of
        Inl err \<Rightarrow> Inl err
      | Inr items \<Rightarrow>
          (let params' = params(''content'' \<mapsto> concat items)
           in case render e fs dst params' of
                Inl err \<Rightarrow> Inl err
              | Inr dst_path \<Rightarrow>
                  (case render e fs list_layout params' of
                     Inl err \<Rightarrow> Inl err
                   | Inr output \<Rightarrow> fwrite fs dst_path output)))"

section \<open>Vocabulary of the statements\<close>

text \<open>\<open>occurs_at text sub p\<close>: the string \<open>sub\<close> stands in \<open>text\<close> at the index \<open>p\<close>.\<close>

definition occurs_at :: "string \<Rightarrow> string \<Rightarrow> nat \<Rightarrow> bool" where
  "occurs_at text sub p = (take (length sub) (drop p text) = sub)"

section \<open>An environment for the examples\<close>

text \<open>
  Stand-ins for the outside functions, used only to run the model on concrete inputs: a template
  engine that appends the \<^verbatim>\<open>slug\<close> of the mapping to the template, a Markdown converter
  that wraps the text in a paragraph, and documents of the form \<open>title|body\<close>, in which the
  element with the id \<^verbatim>\<open>title\<close> holds the text before the bar and the element with the id
  \<^verbatim>\<open>post\<close> the text after it; a document without a bar has neither element.
\<close>

definition ex_jinja :: "files \<Rightarrow> string \<Rightarrow> dict \<Rightarrow> error + string" where
  "ex_jinja fs html params = Inr (html @ (case params ''slug'' of None \<Rightarrow> [] | Some s \<Rightarrow> s))"

definition ex_find :: "string \<Rightarrow> string \<Rightarrow> string option" where
  "ex_find html ident =
     (if CHR ''|'' \<notin> set html then None
      else if ident = ''title'' then Some (takeWhile (\<lambda>c. c \<noteq> CHR ''|'') html)
      else if ident = ''post'' then Some (drop 1 (dropWhile (\<lambda>c. c \<noteq> CHR ''|'') html))
      else None)"

definition ex_env :: env where
  "ex_env = \<lparr> date_format = ''%b %d, %Y'',
      strftime = (\<lambda>fmt ymd. fmt),
      commonmark = (\<lambda>t. ''<p>'' @ t @ ''</p>''),
      add_parser = None,
      jinja = ex_jinja,
      glob = (\<lambda>fs pat. []),
      soup_find_text = ex_find \<rparr>"

text \<open>
  The same environment with an additional parser registered, and a small content directory.
\<close>

definition ex_env_parser :: env where
  "ex_env_parser = ex_env\<lparr>add_parser := Some (\<lambda>text filename. text @ ''<!-- parsed -->'')\<rparr>"

definition ex_content :: files where
  "ex_content = [''content/blog/2023-01-01-hello.md'' \<mapsto> ''vars{# /variables #}body'',
                 ''content/blog/2021-02-30-post.md'' \<mapsto> ''text'',
                 ''content/about.html'' \<mapsto> ''<h1>About</h1>'']"

text \<open>
  An output directory: two rendered pages that have neither a title element nor a post
  element, and one page whose post element holds thirty words.
\<close>

definition ex_site :: files where
  "ex_site = [''_site/blog/a/index.html'' \<mapsto> ''<p>no title, no post</p>'',
              ''_site/blog/b/index.html'' \<mapsto> ''<p>no title, no post</p>'',
              ''_site/blog/c/index.html'' \<mapsto>
                ''Thirty words| w01 w02  w03 w04 w05 w06 w07 w08 w09 w10 w11 w12 w13 w14 w15 w16 w17 w18 w19 w20 w21 w22 w23 w24 w25 w26 w27 w28 w29 w30'']"

text \<open>
  A blog of three posts, which \<^verbatim>\<open>glob\<close> lists in an order that is not the order of their
  dates; the rendered pages of the three posts and their records, newest first.
\<close>

definition ex_blog :: files where
  "ex_blog = [''content/blog/2020-01-01-a.md'' \<mapsto> ''first'',
              ''content/blog/2021-06-15-b.md'' \<mapsto> ''second'',
              ''content/blog/2019-12-31-c.md'' \<mapsto> ''third'']"

definition ex_env_blog :: env where
  "ex_env_blog = ex_env\<lparr>glob := (\<lambda>fs pattern.
     [''content/blog/2020-01-01-a.md'', ''content/blog/2021-06-15-b.md'',
      ''content/blog/2019-12-31-c.md''])\<rparr>"

definition ex_out :: files where
  "ex_out = [''_site/blog/a'' \<mapsto> ''Title a|Body a'',
             ''_site/blog/b'' \<mapsto> ''Title b|Body b'',
             ''_site/blog/c'' \<mapsto> ''Title c|Body c'']"

definition ex_posts :: "dict list" where
  "ex_posts = [[''date_ymd'' \<mapsto> ''2021-06-15'', ''slug'' \<mapsto> ''b'', ''dest_path'' \<mapsto> ''_site/blog/b''],
               [''date_ymd'' \<mapsto> ''2020-01-01'', ''slug'' \<mapsto> ''a'', ''dest_path'' \<mapsto> ''_site/blog/a''],
               [''date_ymd'' \<mapsto> ''2019-12-31'', ''slug'' \<mapsto> ''c'', ''dest_path'' \<mapsto> ''_site/blog/c'']]"

section \<open>The front-matter splitter\<close>

lemma str_find_least:
  "occurs_at t sub p \<Longrightarrow> (\<forall>q<p. \<not> occurs_at t sub q) \<Longrightarrow> str_find t sub = int p"
proof (induction t arbitrary: p)
  case Nil
  then show ?case by (cases p) (auto simp: occurs_at_def)
next
  case (Cons c cs)
  show ?case
  proof (cases "take (length sub) (c # cs) = sub")
    case True
    then have "occurs_at (c # cs) sub 0" by (simp add: occurs_at_def)
    with Cons.prems(2) have "p = 0" by (cases p) auto
    with True show ?thesis by simp
  next
    case False
    have "p \<noteq> 0"
    proof
      assume "p = 0"
      with Cons.prems(1) False show False by (simp add: occurs_at_def)
    qed
    then obtain p' where p: "p = Suc p'" by (cases p) auto
    have o: "occurs_at cs sub p'" using Cons.prems(1) p by (simp add: occurs_at_def)
    have m: "\<forall>q<p'. \<not> occurs_at cs sub q"
    proof (intro allI impI)
      fix q assume "q < p'"
      then have "Suc q < p" using p by simp
      with Cons.prems(2) have "\<not> occurs_at (c # cs) sub (Suc q)" by blast
      then show "\<not> occurs_at cs sub q" by (simp add: occurs_at_def)
    qed
    from Cons.IH[OF o m] False p show ?thesis by simp
  qed
qed

lemma str_find_absent:
  "(\<forall>q\<le>length t. \<not> occurs_at t sub q) \<Longrightarrow> str_find t sub = - 1"
proof (induction t)
  case Nil
  then show ?case by (auto simp: occurs_at_def)
next
  case (Cons c cs)
  have "\<not> occurs_at (c # cs) sub 0" using Cons.prems by blast
  then have f: "take (length sub) (c # cs) \<noteq> sub" by (simp add: occurs_at_def)
  have "\<forall>q\<le>length cs. \<not> occurs_at cs sub q"
  proof (intro allI impI)
    fix q assume "q \<le> length cs"
    then have "Suc q \<le> length (c # cs)" by simp
    with Cons.prems have "\<not> occurs_at (c # cs) sub (Suc q)" by blast
    then show "\<not> occurs_at cs sub q" by (simp add: occurs_at_def)
  qed
  from Cons.IH[OF this] f show ?case by simp
qed

lemma str_find_prefix: "str_find (sub @ rest) sub = 0"
proof (cases "sub @ rest")
  case Nil
  then show ?thesis by simp
next
  case (Cons a list)
  have "take (length sub) (sub @ rest) = sub" by simp
  with Cons show ?thesis by simp
qed

text \<open>
  Claim C2, as the code has it. A text that starts with the boundary is returned whole, the
  boundary included, with empty variables (the claim expects the text after the boundary);
  a text in which the boundary first stands at a position \<open>p > 0\<close> gives the stripped
  text before \<open>p\<close> and the stripped text after the boundary; a text without the boundary is
  returned whole with empty variables.
\<close>

theorem separate_content_and_variables_cases:
  "separate_content_and_variables (boundary @ body) boundary = ([], boundary @ body) \<and>
   (occurs_at text boundary p \<and> 0 < p \<and> (\<forall>q<p. \<not> occurs_at text boundary q) \<longrightarrow>
      separate_content_and_variables text boundary =
        (strip (take p text), strip (drop (p + length boundary) text))) \<and>
   ((\<forall>q\<le>length text. \<not> occurs_at text boundary q) \<longrightarrow>
      separate_content_and_variables text boundary = ([], text))"
proof (intro conjI impI)
  show "separate_content_and_variables (boundary @ body) boundary = ([], boundary @ body)"
    by (simp add: separate_content_and_variables_def str_find_prefix)
next
  assume h: "occurs_at text boundary p \<and> 0 < p \<and> (\<forall>q<p. \<not> occurs_at text boundary q)"
  then have "str_find text boundary = int p" by (simp add: str_find_least)
  with h show "separate_content_and_variables text boundary =
        (strip (take p text), strip (drop (p + length boundary) text))"
    by (simp add: separate_content_and_variables_def)
next
  assume "\<forall>q\<le>length text. \<not> occurs_at text boundary q"
  then have "str_find text boundary = - 1" by (rule str_find_absent)
  then show "separate_content_and_variables text boundary = ([], text)"
    by (simp add: separate_content_and_variables_def)
qed

text \<open>
  The second and third equation of claim C2, at the boundary of the source: from the theorem.
\<close>

theorem separate_content_and_variables_cases_witness:
  "separate_content_and_variables ''vars{# /variables #}body'' default_boundary = (''vars'', ''body'') \<and>
   separate_content_and_variables ''no boundary here'' default_boundary = ([], ''no boundary here'')"
proof -
  have a: "occurs_at ''vars{# /variables #}body'' default_boundary 4 \<and> (0::nat) < 4 \<and>
           (\<forall>q<4. \<not> occurs_at ''vars{# /variables #}body'' default_boundary q)"
    by (simp add: occurs_at_def default_boundary_def less_Suc_eq numeral_nat)
  have b: "\<forall>q\<le>length ''no boundary here''. \<not> occurs_at ''no boundary here'' default_boundary q"
    by (simp add: occurs_at_def default_boundary_def le_Suc_eq numeral_nat)
  from separate_content_and_variables_cases[of default_boundary "[]" "''vars{# /variables #}body''" 4] a
  have 1: "separate_content_and_variables ''vars{# /variables #}body'' default_boundary = (''vars'', ''body'')"
    by (simp add: strip_def isspace_def default_boundary_def)
  from separate_content_and_variables_cases[of default_boundary "[]" "''no boundary here''" 0] b
  have 2: "separate_content_and_variables ''no boundary here'' default_boundary = ([], ''no boundary here'')"
    by simp
  from 1 2 show ?thesis by simp
qed

text \<open>
  The first equation of claim C2 fails: at position 0 the test \<^verbatim>\<open>pos > 0\<close> is false, and
  the content keeps the boundary.
\<close>

theorem separate_content_and_variables_boundary_first:
  "separate_content_and_variables (default_boundary @ ''body'') default_boundary
     = ([], ''{# /variables #}body'') \<and>
   separate_content_and_variables (default_boundary @ ''body'') default_boundary \<noteq> ([], ''body'')"
  by (simp add: separate_content_and_variables_def default_boundary_def)

section \<open>The filename pattern and the content record\<close>

lemma match_rest_no_newline:
  assumes "CHR 0x0A \<notin> set r"
  shows "match_rest r = (if r = [] then None else Some r)"
proof -
  have tw: "takeWhile (\<lambda>c. c \<noteq> CHR 0x0A) r = r"
    using assms by (induction r) auto
  show ?thesis unfolding match_rest_def tw by simp
qed

lemma re_search_no_newline:
  assumes "CHR 0x0A \<notin> set seg"
  shows "re_search seg =
     (if seg = [] then None
      else if date_token (take 10 seg) \<and> take 1 (drop 10 seg) = ''-'' \<and> drop 11 seg \<noteq> []
           then Some (Some (take 10 seg), drop 11 seg)
           else Some (None, seg))"
proof -
  have "CHR 0x0A \<notin> set (drop 11 seg)" using assms by (meson in_set_dropD)
  then have d: "match_rest (drop 11 seg) = (if drop 11 seg = [] then None else Some (drop 11 seg))"
    by (rule match_rest_no_newline)
  have s: "match_rest seg = (if seg = [] then None else Some seg)"
    using assms by (rule match_rest_no_newline)
  show ?thesis
  proof (cases "seg = []")
    case True
    then show ?thesis
      by (simp add: re_search_def match_rest_def date_token_def date_pattern_def)
  next
    case False
    show ?thesis
    proof (cases "date_token (take 10 seg) \<and> take 1 (drop 10 seg) = ''-''")
      case True
      then show ?thesis unfolding re_search_def d s using False by simp
    next
      case False
      with \<open>seg \<noteq> []\<close> show ?thesis unfolding re_search_def s by auto
    qed
  qed
qed

lemma pat_matches_char:
  "pat_matches p c \<Longrightarrow> p \<in> set date_pattern \<Longrightarrow> c \<noteq> CHR ''.'' \<and> c \<noteq> CHR 0x0A"
  by (cases p) (auto simp: date_pattern_def)

lemma list_all2_right_elem:
  "list_all2 P xs ys \<Longrightarrow> y \<in> set ys \<Longrightarrow> \<exists>x\<in>set xs. P x y"
  by (induction rule: list_all2_induct) auto

lemma date_token_chars:
  assumes "date_token d"
  shows "length d = 10" and "CHR ''.'' \<notin> set d" and "CHR 0x0A \<notin> set d"
proof -
  from assms have l: "list_all2 pat_matches date_pattern d" by (simp add: date_token_def)
  from list_all2_lengthD[OF l] show "length d = 10" by (simp add: date_pattern_def)
  show "CHR ''.'' \<notin> set d"
  proof
    assume "CHR ''.'' \<in> set d"
    from list_all2_right_elem[OF l this] pat_matches_char show False by blast
  qed
  show "CHR 0x0A \<notin> set d"
  proof
    assume "CHR 0x0A \<in> set d"
    from list_all2_right_elem[OF l this] pat_matches_char show False by blast
  qed
qed

lemma read_content_dom:
  "read_content e fs filename = Inr c \<Longrightarrow>
     dom c = {''date'', ''date_ymd'', ''date_rfc_2822'', ''slug'', ''content''}"
  by (auto simp: read_content_def fread_def Let_def split: option.splits sum.splits prod.splits if_splits)

text \<open>
  Claim C10. A filename whose basename is empty or starts with a dot has an empty segment
  before its first dot; the pattern needs one character at least, so the match is
  \<^verbatim>\<open>None\<close> and \<^verbatim>\<open>match.group(1)\<close> raises \<^verbatim>\<open>AttributeError\<close>. When the file
  cannot be read, \<^verbatim>\<open>fread\<close> has raised before. In both cases no record is returned.
\<close>

theorem read_content_dotfile_fails:
  assumes "basename filename = [] \<or> (\<exists>rest. basename filename = CHR ''.'' # rest)"
  shows "read_content e fs filename =
           Inl (case fs filename of None \<Rightarrow> IOError filename | Some t \<Rightarrow> AttributeError ''group'')"
proof -
  from assms have "date_slug_of filename = []" by (auto simp: date_slug_of_def)
  then have "re_search (date_slug_of filename) = None"
    by (simp add: re_search_def match_rest_def date_token_def date_pattern_def)
  then show ?thesis by (simp add: read_content_def fread_def split: option.splits)
qed

text \<open>The dotfile \<^verbatim>\<open>content/.hidden\<close>, which exists: claim C10 at a concrete input.\<close>

theorem read_content_dotfile_fails_witness:
  "read_content ex_env [''content/.hidden'' \<mapsto> ''<p>x</p>''] ''content/.hidden'' = Inl (AttributeError ''group'')"
  using read_content_dotfile_fails[of "''content/.hidden''" ex_env "[''content/.hidden'' \<mapsto> ''<p>x</p>'']"]
  by (simp add: basename_def)

lemma strptime_epoch: "strptime_ymd ''1970-01-01'' = Inr (1970, 1, 1)"
  by (simp add: strptime_ymd_def date_token_def date_pattern_def number_def digit_val_def
      days_in_month_def is_leap_def)

lemma date_slug_of_stem:
  assumes "basename filename = stem @ ''.'' @ ext" and "CHR ''.'' \<notin> set stem"
  shows "date_slug_of filename = stem"
proof -
  have "takeWhile (\<lambda>c. c \<noteq> CHR ''.'') (stem @ CHR ''.'' # ext) = stem"
    using assms(2) by (induction stem) auto
  with assms(1) show ?thesis by (simp add: date_slug_of_def)
qed

lemma read_content_of_match:
  assumes "fs filename = Some text"
    and "re_search (date_slug_of filename) = Some (g1, g2)"
    and "strptime_ymd (case g1 of None \<Rightarrow> ''1970-01-01'' | Some d \<Rightarrow> d) = Inr ymd"
  shows "\<exists>c. read_content e fs filename = Inr c \<and>
             c ''date_ymd'' = Some (case g1 of None \<Rightarrow> ''1970-01-01'' | Some d \<Rightarrow> d) \<and>
             c ''slug'' = Some g2 \<and>
             c ''content'' = Some (additional_parsing e filename (markdown_step e filename text))"
  using assms by (simp add: read_content_def fread_def format_date_def)

lemma read_content_of_bad_date:
  assumes "fs filename = Some text"
    and "re_search (date_slug_of filename) = Some (g1, g2)"
    and "strptime_ymd (case g1 of None \<Rightarrow> ''1970-01-01'' | Some d \<Rightarrow> d) = Inl err"
  shows "read_content e fs filename = Inl err"
  using assms by (simp add: read_content_def fread_def format_date_def)

lemma read_content_inversion:
  assumes "read_content e fs filename = Inr c"
  shows "\<exists>text g1 g2. fs filename = Some text \<and>
           re_search (date_slug_of filename) = Some (g1, g2) \<and>
           c ''date_ymd'' = Some (case g1 of None \<Rightarrow> ''1970-01-01'' | Some d \<Rightarrow> d) \<and>
           c ''slug'' = Some g2 \<and>
           c ''content'' = Some (additional_parsing e filename (markdown_step e filename text))"
  using assms
  by (auto simp: read_content_def fread_def Let_def split: option.splits sum.splits prod.splits)

text \<open>
  Claim C1, as the code has it, for filenames made of code points below 256, where the digits
  of a date token are the ten ASCII digits (a filename with other decimal digits of Unicode
  is outside this statement). Let the file be readable and let \<open>s\<close> be a non-empty slug
  without a dot and without a line feed. For a basename \<open>d-s.ext\<close> whose \<open>d\<close> matches the
  date pattern: when \<^verbatim>\<open>strptime\<close> accepts \<open>d\<close> (year at least 1, month 1 to 12, a day
  of that month), the record has \<open>date_ymd = d\<close> and \<open>slug = s\<close>; when it does not,
  \<^verbatim>\<open>strptime\<close> raises and no record is returned. For a basename \<open>s.ext\<close> where \<open>s\<close>
  does not start with a date, a dash and one character more, the record has
  \<open>date_ymd = 1970-01-01\<close> and \<open>slug = s\<close>.
\<close>

theorem read_content_date_and_slug:
  assumes "fs filename = Some text"
    and "s \<noteq> []" and "CHR ''.'' \<notin> set s" and "CHR 0x0A \<notin> set s"
  shows
    "(basename filename = d @ ''-'' @ s @ ''.'' @ ext \<and> date_token d \<and> strptime_ymd d = Inr ymd \<longrightarrow>
        (\<exists>c. read_content e fs filename = Inr c \<and> c ''date_ymd'' = Some d \<and> c ''slug'' = Some s)) \<and>
     (basename filename = d @ ''-'' @ s @ ''.'' @ ext \<and> date_token d \<and> strptime_ymd d = Inl err \<longrightarrow>
        read_content e fs filename = Inl err) \<and>
     (basename filename = s @ ''.'' @ ext \<and>
      \<not> (date_token (take 10 s) \<and> take 1 (drop 10 s) = ''-'' \<and> drop 11 s \<noteq> []) \<longrightarrow>
        (\<exists>c. read_content e fs filename = Inr c \<and> c ''date_ymd'' = Some ''1970-01-01'' \<and>
             c ''slug'' = Some s))"
proof -
  have dated: "re_search (date_slug_of filename) = Some (Some d, s)"
    if b: "basename filename = d @ ''-'' @ s @ ''.'' @ ext" and t: "date_token d"
  proof -
    note dc = date_token_chars[OF t]
    have "basename filename = (d @ ''-'' @ s) @ ''.'' @ ext" using b by simp
    moreover have "CHR ''.'' \<notin> set (d @ ''-'' @ s)" using dc(2) assms(3) by simp
    ultimately have seg: "date_slug_of filename = d @ ''-'' @ s" by (rule date_slug_of_stem)
    have nl: "CHR 0x0A \<notin> set (d @ ''-'' @ s)" using dc(3) assms(4) by simp
    show ?thesis unfolding seg re_search_no_newline[OF nl] using dc(1) t assms(2) by simp
  qed
  have plain: "re_search (date_slug_of filename) = Some (None, s)"
    if b: "basename filename = s @ ''.'' @ ext"
      and n: "\<not> (date_token (take 10 s) \<and> take 1 (drop 10 s) = ''-'' \<and> drop 11 s \<noteq> [])"
  proof -
    have seg: "date_slug_of filename = s" using b assms(3) by (rule date_slug_of_stem)
    show ?thesis unfolding seg re_search_no_newline[OF assms(4)] using n assms(2) by auto
  qed
  show ?thesis
  proof (intro conjI impI)
    assume h: "basename filename = d @ ''-'' @ s @ ''.'' @ ext \<and> date_token d \<and> strptime_ymd d = Inr ymd"
    then have r: "re_search (date_slug_of filename) = Some (Some d, s)" using dated by blast
    from read_content_of_match[where fs=fs and filename=filename and e=e and ymd=ymd, OF assms(1) r] h
    show "\<exists>c. read_content e fs filename = Inr c \<and> c ''date_ymd'' = Some d \<and> c ''slug'' = Some s"
      by auto
  next
    assume h: "basename filename = d @ ''-'' @ s @ ''.'' @ ext \<and> date_token d \<and> strptime_ymd d = Inl err"
    then have r: "re_search (date_slug_of filename) = Some (Some d, s)" using dated by blast
    from read_content_of_bad_date[where fs=fs and filename=filename and e=e and err=err, OF assms(1) r] h
    show "read_content e fs filename = Inl err" by simp
  next
    assume h: "basename filename = s @ ''.'' @ ext \<and>
      \<not> (date_token (take 10 s) \<and> take 1 (drop 10 s) = ''-'' \<and> drop 11 s \<noteq> [])"
    then have r: "re_search (date_slug_of filename) = Some (None, s)" using plain by blast
    from read_content_of_match[where fs=fs and filename=filename and e=e and ymd="(1970, 1, 1)", OF assms(1) r]
      strptime_epoch
    show "\<exists>c. read_content e fs filename = Inr c \<and> c ''date_ymd'' = Some ''1970-01-01'' \<and>
             c ''slug'' = Some s"
      by auto
  qed
qed


lemmas read_content_eval =
  read_content_def fread_def date_slug_of_def basename_def re_search_def match_rest_def
  date_token_def date_pattern_def format_date_def strptime_ymd_def number_def digit_val_def
  days_in_month_def is_leap_def markdown_step_def additional_parsing_def endswith_any_def
  endswith_def markdown_extensions_def separate_content_and_variables_def default_boundary_def
  strip_def isspace_def md_header_def md_footer_def ex_env_def ex_env_parser_def ex_content_def

text \<open>
  Claim C1 at three files: a dated post, a post dated on the 30th of February, and a page
  without a date.
\<close>

theorem read_content_date_and_slug_witness:
  "(\<exists>c. read_content ex_env ex_content ''content/blog/2023-01-01-hello.md'' = Inr c \<and>
        c ''date_ymd'' = Some ''2023-01-01'' \<and> c ''slug'' = Some ''hello'') \<and>
   read_content ex_env ex_content ''content/blog/2021-02-30-post.md'' = Inl (ValueError ''2021-02-30'') \<and>
   (\<exists>c. read_content ex_env ex_content ''content/about.html'' = Inr c \<and>
        c ''date_ymd'' = Some ''1970-01-01'' \<and> c ''slug'' = Some ''about'')"
proof -
  have f1: "ex_content ''content/blog/2023-01-01-hello.md'' = Some ''vars{# /variables #}body''"
    and f2: "ex_content ''content/blog/2021-02-30-post.md'' = Some ''text''"
    and f3: "ex_content ''content/about.html'' = Some ''<h1>About</h1>''"
    by (simp_all add: ex_content_def)
  have s1: "''hello'' \<noteq> []" "CHR ''.'' \<notin> set ''hello''" "CHR 0x0A \<notin> set ''hello''" by simp_all
  have s2: "''post'' \<noteq> []" "CHR ''.'' \<notin> set ''post''" "CHR 0x0A \<notin> set ''post''" by simp_all
  have s3: "''about'' \<noteq> []" "CHR ''.'' \<notin> set ''about''" "CHR 0x0A \<notin> set ''about''" by simp_all
  have d1: "strptime_ymd ''2023-01-01'' = Inr (2023, 1, 1)"
    and d2: "strptime_ymd ''2021-02-30'' = Inl (ValueError ''2021-02-30'')"
    by (simp_all add: strptime_ymd_def date_token_def date_pattern_def number_def digit_val_def
        days_in_month_def is_leap_def)
  from read_content_date_and_slug[where e=ex_env and fs=ex_content
      and filename="''content/blog/2023-01-01-hello.md''" and s="''hello''"
      and d="''2023-01-01''" and ext="''md''" and ymd="(2023, 1, 1)", OF f1 s1] d1
  have 1: "\<exists>c. read_content ex_env ex_content ''content/blog/2023-01-01-hello.md'' = Inr c \<and>
        c ''date_ymd'' = Some ''2023-01-01'' \<and> c ''slug'' = Some ''hello''"
    by (simp add: basename_def date_token_def date_pattern_def)
  from read_content_date_and_slug[where e=ex_env and fs=ex_content
      and filename="''content/blog/2021-02-30-post.md''" and s="''post''"
      and d="''2021-02-30''" and ext="''md''" and err="ValueError ''2021-02-30''", OF f2 s2] d2
  have 2: "read_content ex_env ex_content ''content/blog/2021-02-30-post.md''
             = Inl (ValueError ''2021-02-30'')"
    by (simp add: basename_def date_token_def date_pattern_def)
  from read_content_date_and_slug[where e=ex_env and fs=ex_content
      and filename="''content/about.html''" and s="''about''" and ext="''html''", OF f3 s3]
  have 3: "\<exists>c. read_content ex_env ex_content ''content/about.html'' = Inr c \<and>
        c ''date_ymd'' = Some ''1970-01-01'' \<and> c ''slug'' = Some ''about''"
    by (simp add: basename_def date_token_def date_pattern_def)
  from 1 2 3 show ?thesis by blast
qed

text \<open>
  Claim C1 as stated fails. A filename with the date token \<^verbatim>\<open>2021-02-30\<close> gives no record
  but a \<^verbatim>\<open>ValueError\<close>; a date token followed by a dash and nothing more is not taken as
  a date, and the whole segment becomes the slug; a line feed that ends the slug is dropped
  from it.
\<close>

theorem read_content_date_and_slug_counterexample:
  "read_content ex_env [''content/blog/2021-02-30-post.md'' \<mapsto> ''text'']
       ''content/blog/2021-02-30-post.md'' = Inl (ValueError ''2021-02-30'') \<and>
   map_sum id (\<lambda>c. (c ''date_ymd'', c ''slug''))
     (read_content ex_env [''content/blog/2020-01-01-.md'' \<mapsto> ''text'']
        ''content/blog/2020-01-01-.md'') = Inr (Some ''1970-01-01'', Some ''2020-01-01-'') \<and>
   map_sum id (\<lambda>c. (c ''date_ymd'', c ''slug''))
     (read_content ex_env [''content/blog/2020-01-01-a'' @ [CHR 0x0A] @ ''.md'' \<mapsto> ''text'']
        (''content/blog/2020-01-01-a'' @ [CHR 0x0A] @ ''.md'')) = Inr (Some ''2020-01-01'', Some ''a'')"
  by (simp add: read_content_eval)

text \<open>
  Claim C8, as the code has it. The slug of a returned record is the part of the basename
  before its first dot (not before its last), without the date prefix when a date, a dash and
  one character more start it; the basename holds no line feed.
\<close>

theorem read_content_slug_first_dot:
  assumes "read_content e fs filename = Inr c" and "CHR 0x0A \<notin> set (basename filename)"
  shows "c ''slug'' =
           Some (let seg = takeWhile (\<lambda>x. x \<noteq> CHR ''.'') (basename filename)
                 in if date_token (take 10 seg) \<and> take 1 (drop 10 seg) = ''-'' \<and> drop 11 seg \<noteq> []
                    then drop 11 seg else seg)"
proof -
  from read_content_inversion[OF assms(1)] obtain g1 g2
    where r: "re_search (date_slug_of filename) = Some (g1, g2)" and c: "c ''slug'' = Some g2"
    by blast
  have "CHR 0x0A \<notin> set (date_slug_of filename)"
    using assms(2) by (auto simp: date_slug_of_def dest: set_takeWhileD)
  from re_search_no_newline[OF this] r c show ?thesis
    by (auto simp: date_slug_of_def Let_def split: if_splits)
qed

text \<open>Claim C8 at the file \<^verbatim>\<open>my.note.md\<close>: the slug is \<^verbatim>\<open>my\<close>.\<close>

theorem read_content_slug_first_dot_witness:
  "\<exists>c. read_content ex_env [''content/my.note.md'' \<mapsto> ''text''] ''content/my.note.md'' = Inr c \<and>
       c ''slug'' = Some ''my''"
proof -
  obtain c where c: "read_content ex_env [''content/my.note.md'' \<mapsto> ''text''] ''content/my.note.md'' = Inr c"
    by (simp add: read_content_eval)
  from read_content_slug_first_dot[OF c] have "c ''slug'' = Some ''my''"
    by (simp add: basename_def date_token_def date_pattern_def)
  with c show ?thesis by blast
qed

text \<open>
  Claim C8 as stated fails: for \<^verbatim>\<open>my.note.md\<close> the slug is \<^verbatim>\<open>my\<close>, where the claim
  expects \<^verbatim>\<open>my.note\<close>.
\<close>

theorem read_content_slug_dotted_counterexample:
  "map_sum id (\<lambda>c. c ''slug'')
     (read_content ex_env [''content/my.note.md'' \<mapsto> ''text''] ''content/my.note.md'')
     = Inr (Some ''my'')"
  by (simp add: read_content_eval)

lemma endswith_iff: "endswith s suffix \<longleftrightarrow> (\<exists>stem. s = stem @ suffix)"
proof
  assume "endswith s suffix"
  then have "s = take (length s - length suffix) s @ suffix"
    by (metis append_take_drop_id endswith_def)
  then show "\<exists>stem. s = stem @ suffix" ..
next
  assume "\<exists>stem. s = stem @ suffix"
  then show "endswith s suffix" by (auto simp: endswith_def)
qed

lemma endswith_any_markdown:
  "endswith_any filename markdown_extensions \<longleftrightarrow>
     (\<exists>stem ext. filename = stem @ ext \<and>
        ext \<in> {''.md'', ''.mkd'', ''.mkdn'', ''.mdown'', ''.markdown''})"
  unfolding endswith_any_def markdown_extensions_def list_ex_iff endswith_iff by auto

text \<open>
  Claim C5, as the code has it. For a filename that ends with one of the five Markdown
  extensions the text of the record is the variables, the header directive, the converted
  body and the footer directive, in this order; for any other filename it is the text of the
  file. That holds as such when no additional parser is registered; when one is, the content
  is what the parser makes of that text and the filename.
\<close>

theorem read_content_content:
  assumes "read_content e fs filename = Inr c" and "fs filename = Some text"
    and "separate_content_and_variables text default_boundary = (variables, body)"
  shows
    "(endswith_any filename markdown_extensions \<and> add_parser e = None \<longrightarrow>
        c ''content'' = Some (variables @ md_header @ commonmark e body @ md_footer)) \<and>
     (endswith_any filename markdown_extensions \<and> add_parser e = Some parse \<longrightarrow>
        c ''content'' = Some (parse (variables @ md_header @ commonmark e body @ md_footer) filename)) \<and>
     (\<not> endswith_any filename markdown_extensions \<and> add_parser e = None \<longrightarrow>
        c ''content'' = Some text) \<and>
     (\<not> endswith_any filename markdown_extensions \<and> add_parser e = Some parse \<longrightarrow>
        c ''content'' = Some (parse text filename))"
  using read_content_inversion[OF assms(1)] assms(2,3)
  by (auto simp: additional_parsing_def markdown_step_def)


text \<open>
  Claim C5 at a Markdown file and an HTML file, without and with an additional parser.
\<close>

theorem read_content_content_witness:
  "(\<exists>c. read_content ex_env ex_content ''content/blog/2023-01-01-hello.md'' = Inr c \<and>
        c ''content'' = Some (''vars'' @ md_header @ ''<p>body</p>'' @ md_footer)) \<and>
   (\<exists>c. read_content ex_env_parser ex_content ''content/blog/2023-01-01-hello.md'' = Inr c \<and>
        c ''content'' = Some (''vars'' @ md_header @ ''<p>body</p>'' @ md_footer @ ''<!-- parsed -->'')) \<and>
   (\<exists>c. read_content ex_env ex_content ''content/about.html'' = Inr c \<and>
        c ''content'' = Some ''<h1>About</h1>'') \<and>
   (\<exists>c. read_content ex_env_parser ex_content ''content/about.html'' = Inr c \<and>
        c ''content'' = Some ''<h1>About</h1><!-- parsed -->'')"
proof -
  have f1: "ex_content ''content/blog/2023-01-01-hello.md'' = Some ''vars{# /variables #}body''"
    and f2: "ex_content ''content/about.html'' = Some ''<h1>About</h1>''"
    by (simp_all add: ex_content_def)
  have p1: "separate_content_and_variables ''vars{# /variables #}body'' default_boundary
              = (''vars'', ''body'')"
    and p2: "separate_content_and_variables ''<h1>About</h1>'' default_boundary
              = ([], ''<h1>About</h1>'')"
    by (simp_all add: separate_content_and_variables_def default_boundary_def strip_def isspace_def)
  have m1: "endswith_any ''content/blog/2023-01-01-hello.md'' markdown_extensions"
    and m2: "\<not> endswith_any ''content/about.html'' markdown_extensions"
    by (simp_all add: endswith_any_def endswith_def markdown_extensions_def)
  obtain c1 where c1: "read_content ex_env ex_content ''content/blog/2023-01-01-hello.md'' = Inr c1"
    by (simp add: read_content_eval)
  obtain c2 where c2: "read_content ex_env_parser ex_content ''content/blog/2023-01-01-hello.md'' = Inr c2"
    by (simp add: read_content_eval)
  obtain c3 where c3: "read_content ex_env ex_content ''content/about.html'' = Inr c3"
    by (simp add: read_content_eval)
  obtain c4 where c4: "read_content ex_env_parser ex_content ''content/about.html'' = Inr c4"
    by (simp add: read_content_eval)
  from read_content_content[OF c1 f1 p1] m1
  have 1: "c1 ''content'' = Some (''vars'' @ md_header @ ''<p>body</p>'' @ md_footer)"
    by (simp add: ex_env_def)
  from read_content_content[OF c2 f1 p1, where parse="\<lambda>text filename. text @ ''<!-- parsed -->''"] m1
  have 2: "c2 ''content'' = Some (''vars'' @ md_header @ ''<p>body</p>'' @ md_footer @ ''<!-- parsed -->'')"
    by (simp add: ex_env_def ex_env_parser_def)
  from read_content_content[OF c3 f2 p2] m2
  have 3: "c3 ''content'' = Some ''<h1>About</h1>''"
    by (simp add: ex_env_def)
  from read_content_content[OF c4 f2 p2, where parse="\<lambda>text filename. text @ ''<!-- parsed -->''"] m2
  have 4: "c4 ''content'' = Some ''<h1>About</h1><!-- parsed -->''"
    by (simp add: ex_env_def ex_env_parser_def)
  from c1 c2 c3 c4 1 2 3 4 show ?thesis by blast
qed

text \<open>
  Claim C5 as stated fails when an additional parser is registered: the content of an HTML
  file is then not the raw text of the file.
\<close>

theorem read_content_content_counterexample:
  "map_sum id (\<lambda>c. c ''content'')
     (read_content ex_env_parser [''content/about.html'' \<mapsto> ''<h1>About</h1>''] ''content/about.html'')
     = Inr (Some ''<h1>About</h1><!-- parsed -->'')"
  by (simp add: read_content_eval)

section \<open>Title and summary\<close>

lemma split_acc_word:
  "\<forall>c\<in>set w. \<not> isspace c \<Longrightarrow> split_acc cur (w @ rest) = split_acc (cur @ w) rest"
  by (induction w arbitrary: cur) auto

lemma split_acc_gap_empty:
  "\<forall>c\<in>set g. isspace c \<Longrightarrow> split_acc [] (g @ rest) = split_acc [] rest"
  by (induction g) auto

lemma split_acc_gap:
  assumes "\<forall>c\<in>set g. isspace c" and "g \<noteq> []" and "cur \<noteq> []"
  shows "split_acc cur (g @ rest) = cur # split_acc [] rest"
proof -
  from assms(2) obtain c g' where g: "g = c # g'" by (cases g) auto
  with assms(1) have "isspace c" and "\<forall>c\<in>set g'. isspace c" by auto
  then show ?thesis using g assms(3) by (simp add: split_acc_gap_empty)
qed

lemma split_acc_end:
  assumes "cur \<noteq> []" and "\<forall>c\<in>set g. isspace c"
  shows "split_acc cur g = [cur]"
proof (cases "g = []")
  case True
  with assms(1) show ?thesis by simp
next
  case False
  from split_acc_gap[OF assms(2) False assms(1), of "[]"] show ?thesis by simp
qed

lemma split_acc_words:
  assumes "length gaps = length ws"
    and "\<forall>w\<in>set ws. w \<noteq> [] \<and> (\<forall>c\<in>set w. \<not> isspace c)"
    and "\<forall>g\<in>set gaps. \<forall>c\<in>set g. isspace c"
    and "\<forall>g\<in>set (butlast gaps). g \<noteq> []"
  shows "split_acc [] (concat (map2 (@) ws gaps)) = ws"
  using assms
proof (induction ws arbitrary: gaps)
  case Nil
  then show ?case by simp
next
  case (Cons w ws)
  from Cons.prems(1) obtain g gs where gaps: "gaps = g # gs" and len: "length gs = length ws"
    by (cases gaps) auto
  have w: "w \<noteq> []" "\<forall>c\<in>set w. \<not> isspace c" using Cons.prems(2) by auto
  have g: "\<forall>c\<in>set g. isspace c" using Cons.prems(3) gaps by auto
  let ?R = "concat (map2 (@) ws gs)"
  have "split_acc [] (concat (map2 (@) (w # ws) gaps)) = split_acc [] (w @ g @ ?R)"
    using gaps by simp
  also have "\<dots> = split_acc w (g @ ?R)" using split_acc_word[OF w(2), of "[]"] by simp
  also have "\<dots> = w # ws"
  proof (cases ws)
    case Nil
    with len have "?R = []" by simp
    with split_acc_end[OF w(1) g] Nil show ?thesis by simp
  next
    case (Cons w' ws')
    with len have "gs \<noteq> []" by auto
    with Cons.prems(4) gaps have gne: "g \<noteq> []" and bl: "\<forall>g\<in>set (butlast gs). g \<noteq> []" by auto
    have "split_acc [] ?R = ws"
      using Cons.IH[OF len] Cons.prems(2,3) bl gaps by auto
    with split_acc_gap[OF g gne w(1), of ?R] show ?thesis by simp
  qed
  finally show ?case .
qed

lemma split_ws_words:
  assumes "length gaps = length ws"
    and "\<forall>c\<in>set lead. isspace c"
    and "\<forall>w\<in>set ws. w \<noteq> [] \<and> (\<forall>c\<in>set w. \<not> isspace c)"
    and "\<forall>g\<in>set gaps. \<forall>c\<in>set g. isspace c"
    and "\<forall>g\<in>set (butlast gaps). g \<noteq> []"
  shows "split_ws (lead @ concat (map2 (@) ws gaps)) = ws"
  unfolding split_ws_def split_acc_gap_empty[OF assms(2)]
  using assms(1,3,4,5) by (rule split_acc_words)

text \<open>
  Claim C6. Let the rendered file hold an element with the id \<^verbatim>\<open>title\<close> and one with the
  id \<^verbatim>\<open>post\<close>, and let the text of the latter be the words \<open>ws\<close>, each followed by
  its gap of whitespace (only the last gap may be empty), after leading whitespace. Then
  \<^verbatim>\<open>get_title_and_summary\<close> returns the text of the title as it is, and the first 25 words
  joined by single spaces, with nothing appended. Every text is of this form
  (\<open>text_decomposition\<close>).
\<close>

theorem get_title_and_summary_found:
  assumes "fs path = Some html"
    and "soup_find_text e html ''title'' = Some title"
    and "soup_find_text e html ''post'' = Some (lead @ concat (map2 (@) ws gaps))"
    and "length gaps = length ws"
    and "\<forall>c\<in>set lead. isspace c"
    and "\<forall>w\<in>set ws. w \<noteq> [] \<and> (\<forall>c\<in>set w. \<not> isspace c)"
    and "\<forall>g\<in>set gaps. \<forall>c\<in>set g. isspace c"
    and "\<forall>g\<in>set (butlast gaps). g \<noteq> []"
  shows "get_title_and_summary e fs path = Inr (title, join '' '' (take 25 ws))"
  using assms(1,2,3) split_ws_words[OF assms(4,5,6,7,8)]
  by (simp add: get_title_and_summary_def fread_def truncate_def)

lemma text_decomposition:
  "\<exists>lead ws gaps. post = lead @ concat (map2 (@) ws gaps) \<and> length gaps = length ws \<and>
     (\<forall>c\<in>set lead. isspace c) \<and> (\<forall>w\<in>set ws. w \<noteq> [] \<and> (\<forall>c\<in>set w. \<not> isspace c)) \<and>
     (\<forall>g\<in>set gaps. \<forall>c\<in>set g. isspace c) \<and> (\<forall>g\<in>set (butlast gaps). g \<noteq> [])"
proof (induction post)
  case Nil
  have "[] = [] @ concat (map2 (@) [] ([]::string list)) \<and> length ([]::string list) = length ([]::string list)"
    by simp
  then show ?case by (intro exI[of _ "[]"]) auto
next
  case (Cons c t)
  then obtain lead ws gaps where t: "t = lead @ concat (map2 (@) ws gaps)"
    and len: "length gaps = length ws"
    and l: "\<forall>c\<in>set lead. isspace c"
    and w: "\<forall>w\<in>set ws. w \<noteq> [] \<and> (\<forall>c\<in>set w. \<not> isspace c)"
    and g: "\<forall>g\<in>set gaps. \<forall>c\<in>set g. isspace c"
    and b: "\<forall>g\<in>set (butlast gaps). g \<noteq> []"
    by blast
  show ?case
  proof (cases "isspace c")
    case True
    show ?thesis
      by (rule exI[of _ "c # lead"], rule exI[of _ ws], rule exI[of _ gaps])
        (use t len l w g b True in auto)
  next
    case False
    show ?thesis
    proof (cases "lead = []")
      case lead: False
      show ?thesis
        by (rule exI[of _ "[]"], rule exI[of _ "[c] # ws"], rule exI[of _ "lead # gaps"])
          (use t len l w g b False lead in auto)
    next
      case lead: True
      show ?thesis
      proof (cases ws)
        case Nil
        show ?thesis
          by (rule exI[of _ "[]"], rule exI[of _ "[[c]]"], rule exI[of _ "[[]]"])
            (use t len Nil lead False in auto)
      next
        case (Cons w' ws')
        with len obtain g' gs' where gaps: "gaps = g' # gs'" by (cases gaps) auto
        show ?thesis
          by (rule exI[of _ "[]"], rule exI[of _ "(c # w') # ws'"], rule exI[of _ gaps])
            (use t len l w g b False lead Cons gaps in auto)
      qed
    qed
  qed
qed

text \<open>
  Claim C7, as the code has it. When the title element or the post element is absent from a
  readable file, \<^verbatim>\<open>get_title_and_summary\<close> raises the \<^verbatim>\<open>AttributeError\<close> of
  \<^verbatim>\<open>None.text\<close> and returns no text. The error is the same for every file: it does not
  name the path.
\<close>

theorem get_title_and_summary_missing:
  assumes "fs path = Some html"
    and "soup_find_text e html ''title'' = None \<or> soup_find_text e html ''post'' = None"
  shows "get_title_and_summary e fs path = Inl (AttributeError ''text'')"
  using assms by (auto simp: get_title_and_summary_def fread_def split: option.splits)

text \<open>
  Claim C6 at a page whose post has thirty words, two of them two spaces apart: the summary
  is the first 25 words, one space apart.
\<close>

theorem get_title_and_summary_found_witness:
  "get_title_and_summary ex_env ex_site ''_site/blog/c/index.html'' =
     Inr (''Thirty words'',
          ''w01 w02 w03 w04 w05 w06 w07 w08 w09 w10 w11 w12 w13 w14 w15 w16 w17 w18 w19 w20 w21 w22 w23 w24 w25'')"
proof -
  let ?ws = "[''w01'', ''w02'', ''w03'', ''w04'', ''w05'', ''w06'', ''w07'', ''w08'', ''w09'', ''w10'',
              ''w11'', ''w12'', ''w13'', ''w14'', ''w15'', ''w16'', ''w17'', ''w18'', ''w19'', ''w20'',
              ''w21'', ''w22'', ''w23'', ''w24'', ''w25'', ''w26'', ''w27'', ''w28'', ''w29'', ''w30'']"
  let ?gaps = "['' '', ''  '', '' '', '' '', '' '', '' '', '' '', '' '', '' '', '' '',
                '' '', '' '', '' '', '' '', '' '', '' '', '' '', '' '', '' '', '' '',
                '' '', '' '', '' '', '' '', '' '', '' '', '' '', '' '', '' '', []]"
  let ?html = "''Thirty words| w01 w02  w03 w04 w05 w06 w07 w08 w09 w10 w11 w12 w13 w14 w15 w16 w17 w18 w19 w20 w21 w22 w23 w24 w25 w26 w27 w28 w29 w30''"
  have f: "ex_site ''_site/blog/c/index.html'' = Some ?html"
    by (simp add: ex_site_def)
  have t: "soup_find_text ex_env ?html ''title'' = Some ''Thirty words''"
    by (simp add: ex_env_def ex_find_def)
  have p: "soup_find_text ex_env ?html ''post'' = Some ('' '' @ concat (map2 (@) ?ws ?gaps))"
    by (simp add: ex_env_def ex_find_def)
  have l: "length ?gaps = length ?ws" by simp
  have a: "\<forall>c\<in>set '' ''. isspace c" by (simp add: isspace_def)
  have b: "\<forall>w\<in>set ?ws. w \<noteq> [] \<and> (\<forall>c\<in>set w. \<not> isspace c)" by (simp add: isspace_def)
  have c: "\<forall>g\<in>set ?gaps. \<forall>c\<in>set g. isspace c" by (simp add: isspace_def)
  have d: "\<forall>g\<in>set (butlast ?gaps). g \<noteq> []" by simp
  from get_title_and_summary_found[where fs=ex_site and e=ex_env and html="?html"
      and path="''_site/blog/c/index.html''", OF f t p l a b c d]
  show ?thesis by simp
qed

text \<open>Claim C7 at a page with neither element.\<close>

theorem get_title_and_summary_missing_witness:
  "get_title_and_summary ex_env ex_site ''_site/blog/a/index.html'' = Inl (AttributeError ''text'')"
proof -
  have f: "ex_site ''_site/blog/a/index.html'' = Some ''<p>no title, no post</p>''"
    by (simp add: ex_site_def)
  have m: "soup_find_text ex_env ''<p>no title, no post</p>'' ''title'' = None \<or>
           soup_find_text ex_env ''<p>no title, no post</p>'' ''post'' = None"
    by (simp add: ex_env_def ex_find_def)
  from get_title_and_summary_missing[where fs=ex_site and e=ex_env
      and path="''_site/blog/a/index.html''", OF f m]
  show ?thesis .
qed

text \<open>
  Claim C7 as stated fails in its last part: two different output files without the elements
  raise one and the same error, which therefore identifies neither.
\<close>

theorem get_title_and_summary_same_failure:
  "get_title_and_summary ex_env ex_site ''_site/blog/a/index.html'' = Inl (AttributeError ''text'') \<and>
   get_title_and_summary ex_env ex_site ''_site/blog/b/index.html'' = Inl (AttributeError ''text'')"
  by (simp add: get_title_and_summary_def fread_def ex_site_def ex_env_def ex_find_def)

section \<open>The page builder and the list builder\<close>

lemma make_pages_step_result:
  assumes "make_pages_step e dst p (fs, params, items) = Inr (fs', params', items')"
  shows "\<exists>ctx dp. read_content e fs p = Inr ctx \<and> params' = params ++ ctx \<and>
           items' = items @ [ctx(''dest_path'' \<mapsto> dp)]"
  using assms
  by (auto simp: make_pages_step_def Let_def split: sum.splits option.splits)

lemma make_pages_loop_length:
  "make_pages_loop e dst paths st = Inr st' \<Longrightarrow>
     length (snd (snd st')) = length (snd (snd st)) + length paths"
proof (induction paths arbitrary: st)
  case Nil
  then show ?case by simp
next
  case (Cons p paths)
  from Cons.prems obtain st1 where s: "make_pages_step e dst p st = Inr st1"
    and l: "make_pages_loop e dst paths st1 = Inr st'"
    by (auto split: sum.splits)
  obtain fs params items where st: "st = (fs, params, items)" by (cases st) auto
  obtain fs1 params1 items1 where st1: "st1 = (fs1, params1, items1)" by (cases st1) auto
  from make_pages_step_result[OF s[unfolded st st1]] have "length items1 = Suc (length items)"
    by auto
  with Cons.IH[OF l] st st1 show ?case by simp
qed

lemma sorted_by_date_desc_sorted:
  assumes "sorted_by_date_desc items = Inr pages"
  shows "sorted_wrt (\<lambda>a b. date_ymd_of a \<ge> date_ymd_of b) pages"
    and "length pages = length items" and "set pages = set items"
proof -
  from assms have p: "pages = rev (sort_key date_ymd_of (rev items))"
    by (simp add: sorted_by_date_desc_def split: if_splits)
  have "sorted (map date_ymd_of (sort_key date_ymd_of (rev items)))" by (rule sorted_sort_key)
  then have "sorted_wrt (\<lambda>a b. date_ymd_of a \<le> date_ymd_of b) (sort_key date_ymd_of (rev items))"
    by (simp add: sorted_map)
  then show "sorted_wrt (\<lambda>a b. date_ymd_of a \<ge> date_ymd_of b) pages"
    unfolding p by (simp add: sorted_wrt_rev)
  show "length pages = length items" unfolding p by simp
  show "set pages = set items" unfolding p by simp
qed

text \<open>
  Claim C3. Whatever the order in which \<^verbatim>\<open>glob\<close> lists the source files, the list that
  \<^verbatim>\<open>make_pages\<close> returns is in descending order of \<^verbatim>\<open>date_ymd\<close> and has one record
  for each source file.
\<close>

theorem make_pages_sorted:
  assumes "make_pages e fs src dst layout params = Inr (fs', pages)"
  shows "sorted_wrt (\<lambda>a b. date_ymd_of a \<ge> date_ymd_of b) pages \<and>
         length pages = length (glob e fs src)"
proof -
  from assms obtain params' items
    where l: "make_pages_loop e dst (glob e fs src) (fs, params, []) = Inr (fs', params', items)"
      and s: "sorted_by_date_desc items = Inr pages"
    by (auto simp: make_pages_def split: sum.splits)
  from make_pages_loop_length[OF l] have "length items = length (glob e fs src)" by simp
  with sorted_by_date_desc_sorted[OF s] show ?thesis by simp
qed

lemmas make_pages_eval =
  make_pages_def make_pages_step_def sorted_by_date_desc_def date_ymd_of_def render_def
  fwrite_def dirname_def ex_jinja_def ex_env_blog_def ex_blog_def Let_def


text \<open>
  Claim C3 at posts dated 2020-01-01, 2021-06-15 and 2019-12-31, listed in this order: the
  pages come back dated 2021-06-15, 2020-01-01, 2019-12-31.
\<close>

theorem make_pages_sorted_witness:
  "\<exists>fs' pages. make_pages ex_env_blog ex_blog ''content/blog/*.md'' ''_site/blog/'' None Map.empty
                   = Inr (fs', pages) \<and>
     map date_ymd_of pages = [''2021-06-15'', ''2020-01-01'', ''2019-12-31''] \<and>
     sorted_wrt (\<lambda>a b. date_ymd_of a \<ge> date_ymd_of b) pages \<and> length pages = 3"
proof -
  have d: "(case make_pages ex_env_blog ex_blog ''content/blog/*.md'' ''_site/blog/'' None Map.empty of
              Inl err \<Rightarrow> [] | Inr (fs', pages) \<Rightarrow> map date_ymd_of pages)
           = [''2021-06-15'', ''2020-01-01'', ''2019-12-31'']"
    by (simp add: make_pages_eval read_content_eval)
  then obtain fs' pages
    where r: "make_pages ex_env_blog ex_blog ''content/blog/*.md'' ''_site/blog/'' None Map.empty
                = Inr (fs', pages)"
    by (auto split: sum.splits)
  with d have m: "map date_ymd_of pages = [''2021-06-15'', ''2020-01-01'', ''2019-12-31'']" by simp
  from make_pages_sorted[OF r]
  have s: "sorted_wrt (\<lambda>a b. date_ymd_of a \<ge> date_ymd_of b) pages \<and> length pages = 3"
    by (simp add: ex_env_blog_def)
  show ?thesis
    by (rule exI[of _ fs'], rule exI[of _ pages]) (use r m s in simp)
qed

lemma map_add_same_dom:
  assumes "dom c0 = dom c"
  shows "(params ++ c0) ++ c = params ++ c"
proof (rule ext)
  fix x
  show "((params ++ c0) ++ c) x = (params ++ c) x"
  proof (cases "c x")
    case None
    then have "x \<notin> dom c0" using assms by auto
    then have "c0 x = None" by auto
    with None show ?thesis by (simp add: map_add_def)
  next
    case (Some v)
    then show ?thesis by (simp add: map_add_def)
  qed
qed

lemma make_pages_step_frame:
  assumes "read_content e fs0 p0 = Inr c0"
  shows "make_pages_step e dst p (fs, params ++ c0, items) = make_pages_step e dst p (fs, params, items)"
proof (cases "read_content e fs p")
  case (Inl err)
  then show ?thesis by (simp add: make_pages_step_def)
next
  case (Inr ctx)
  have "dom c0 = dom ctx" using read_content_dom[OF assms] read_content_dom[OF Inr] by simp
  then have "(params ++ c0) ++ ctx = params ++ ctx" by (rule map_add_same_dom)
  with Inr show ?thesis by (simp add: make_pages_step_def)
qed

lemma make_list_loop_fragments:
  "make_list_loop e fs item_layout limit params k posts items = Inr frags \<Longrightarrow>
     \<exists>new. frags = items @ new \<and>
       map Inr new = map (render_item e fs item_layout params) (take (length new) posts)"
proof (induction posts arbitrary: k items)
  case Nil
  then show ?case by simp
next
  case (Cons post posts)
  from Cons.prems obtain item where i: "render_item e fs item_layout params post = Inr item"
    by (auto split: sum.splits)
  show ?case
  proof (cases "case limit of None \<Rightarrow> False | Some l \<Rightarrow> int k + 1 \<ge> l")
    case True
    with Cons.prems i have "frags = items @ [item]" by simp
    with i show ?thesis by simp
  next
    case False
    with Cons.prems i
    have "make_list_loop e fs item_layout limit params (k + 1) posts (items @ [item]) = Inr frags"
      by simp
    from Cons.IH[OF this] obtain new where n: "frags = (items @ [item]) @ new"
      and m: "map Inr new = map (render_item e fs item_layout params) (take (length new) posts)"
      by blast
    show ?thesis
      by (rule exI[of _ "item # new"]) (use n m i in simp)
  qed
qed

lemma make_list_loop_count:
  "make_list_loop e fs item_layout limit params k posts items = Inr frags \<Longrightarrow>
     length frags = length items +
       (case limit of None \<Rightarrow> length posts
        | Some l \<Rightarrow> min (length posts) (nat (max 1 (l - int k))))"
proof (induction posts arbitrary: k items)
  case Nil
  then show ?case by (simp split: option.splits)
next
  case (Cons post posts)
  from Cons.prems obtain item where i: "render_item e fs item_layout params post = Inr item"
    by (auto split: sum.splits)
  show ?case
  proof (cases "case limit of None \<Rightarrow> False | Some l \<Rightarrow> int k + 1 \<ge> l")
    case True
    with Cons.prems i have "frags = items @ [item]" by simp
    with True show ?thesis by (auto split: option.splits)
  next
    case False
    with Cons.prems i
    have "make_list_loop e fs item_layout limit params (k + 1) posts (items @ [item]) = Inr frags"
      by simp
    from Cons.IH[OF this] False show ?thesis by (auto split: option.splits)
  qed
qed

lemma make_list_items_count:
  assumes "make_list_items e fs item_layout limit params posts = Inr frags"
  shows "length frags =
           (case limit of None \<Rightarrow> length posts | Some l \<Rightarrow> min (length posts) (nat (max 1 l)))"
  using make_list_loop_count[OF assms[unfolded make_list_items_def]]
  by (simp split: option.splits)

text \<open>
  Claim C9, as the code has it. \<^verbatim>\<open>make_pages\<close> updates its own mapping in place with each
  record, but every record has the same five keys, so the keys that an earlier record \<open>c0\<close>
  left in the mapping are all overwritten: the files written and the records gathered by the
  rest of the loop are the same as from the mapping without \<open>c0\<close>. In \<^verbatim>\<open>make_list\<close> each
  fragment is rendered from \<^verbatim>\<open>dict(params, **post)\<close>, a new mapping: the fragments are
  those of the posts from the front of the list, each rendered on its own from \<open>params\<close>.
\<close>

theorem builders_per_item_mapping:
  "(read_content e fs0 p0 = Inr c0 \<longrightarrow>
      map_sum id (\<lambda>st. (fst st, snd (snd st))) (make_pages_loop e dst paths (fs, params ++ c0, items)) =
      map_sum id (\<lambda>st. (fst st, snd (snd st))) (make_pages_loop e dst paths (fs, params, items))) \<and>
   (make_list_items e fs item_layout limit params posts = Inr frags \<longrightarrow>
      map Inr frags = map (render_item e fs item_layout params) (take (length frags) posts))"
proof (intro conjI impI)
  assume r: "read_content e fs0 p0 = Inr c0"
  show "map_sum id (\<lambda>st. (fst st, snd (snd st))) (make_pages_loop e dst paths (fs, params ++ c0, items)) =
        map_sum id (\<lambda>st. (fst st, snd (snd st))) (make_pages_loop e dst paths (fs, params, items))"
  proof (cases paths)
    case Nil
    then show ?thesis by simp
  next
    case (Cons p rest)
    then show ?thesis by (simp add: make_pages_step_frame[OF r])
  qed
next
  assume "make_list_items e fs item_layout limit params posts = Inr frags"
  from make_list_loop_fragments[OF this[unfolded make_list_items_def]]
  show "map Inr frags = map (render_item e fs item_layout params) (take (length frags) posts)"
    by simp
qed

lemmas make_list_eval =
  make_list_items_def render_item_def get_title_and_summary_def truncate_def split_ws_def
  isspace_def fread_def render_def ex_env_def ex_jinja_def ex_find_def ex_out_def ex_posts_def

text \<open>
  Claim C4 at the limit 0: the test of the limit comes after the first fragment is appended,
  so three posts with \<open>limit = 0\<close> give one fragment, where \<open>min 0 3 = 0\<close>. For any limit
  the number of fragments is given by \<open>make_list_items_count\<close>.
\<close>

theorem make_list_items_limit_zero:
  "make_list_items ex_env ex_out ''<li>'' (Some 0) Map.empty ex_posts = Inr [''<li>b'']"
  by (simp add: make_list_eval)

lemma make_list_items_limit_two:
  "make_list_items ex_env ex_out ''<li>'' (Some 2) Map.empty ex_posts = Inr [''<li>b'', ''<li>a'']"
  by (simp add: make_list_eval)

text \<open>
  Claim C9 as stated fails for \<^verbatim>\<open>make_pages\<close>: after the first turn of the loop the
  mapping of the builder, empty before, holds the slug of the first post. The extension is
  made on the mapping itself, not on a copy.
\<close>

theorem make_pages_step_extends_mapping:
  "(case make_pages_step ex_env_blog ''_site/blog/'' ''content/blog/2020-01-01-a.md''
           (ex_blog, Map.empty, []) of
      Inl err \<Rightarrow> None | Inr (fs', params', items) \<Rightarrow> params' ''slug'') = Some ''a''"
  by (simp add: make_pages_eval read_content_eval)


text \<open>
  Claim C9 at the blog: the second post is rendered the same with and without the keys of the
  first in the mapping, and the two fragments of a list limited to two are those of the first
  two posts.
\<close>

theorem builders_per_item_mapping_witness:
  "(\<exists>c0. read_content ex_env_blog ex_blog ''content/blog/2020-01-01-a.md'' = Inr c0 \<and>
      c0 ''slug'' = Some ''a'' \<and>
      map_sum id (\<lambda>st. (fst st, snd (snd st)))
        (make_pages_loop ex_env_blog ''_site/blog/'' [''content/blog/2021-06-15-b.md'']
           (ex_blog, Map.empty ++ c0, [])) =
      map_sum id (\<lambda>st. (fst st, snd (snd st)))
        (make_pages_loop ex_env_blog ''_site/blog/'' [''content/blog/2021-06-15-b.md'']
           (ex_blog, Map.empty, []))) \<and>
   map Inr [''<li>b'', ''<li>a''] =
     map (render_item ex_env ex_out ''<li>'' Map.empty) (take 2 ex_posts)"
proof -
  obtain c0 where c0: "read_content ex_env_blog ex_blog ''content/blog/2020-01-01-a.md'' = Inr c0"
    by (simp add: make_pages_eval read_content_eval)
  have sl: "c0 ''slug'' = Some ''a''"
    using c0 by (auto simp: make_pages_eval read_content_eval)
  note t = builders_per_item_mapping[where e=ex_env_blog and ?fs0.0=ex_blog
      and ?p0.0="''content/blog/2020-01-01-a.md''" and ?c0.0=c0 and dst="''_site/blog/''"
      and paths="[''content/blog/2021-06-15-b.md'']" and fs=ex_blog and params=Map.empty
      and items="[]"]
  from t c0 have 1:
    "map_sum id (\<lambda>st. (fst st, snd (snd st)))
        (make_pages_loop ex_env_blog ''_site/blog/'' [''content/blog/2021-06-15-b.md'']
           (ex_blog, Map.empty ++ c0, [])) =
      map_sum id (\<lambda>st. (fst st, snd (snd st)))
        (make_pages_loop ex_env_blog ''_site/blog/'' [''content/blog/2021-06-15-b.md'']
           (ex_blog, Map.empty, []))"
    by blast
  have l: "make_list_items ex_env ex_out ''<li>'' (Some 2) Map.empty ex_posts
             = Inr [''<li>b'', ''<li>a'']"
    by (simp add: make_list_eval)
  from builders_per_item_mapping[where e=ex_env and fs=ex_out and item_layout="''<li>''"
      and limit="Some 2" and params=Map.empty and posts=ex_posts and frags="[''<li>b'', ''<li>a'']"] l
  have 2: "map Inr [''<li>b'', ''<li>a''] =
     map (render_item ex_env ex_out ''<li>'' Map.empty) (take 2 ex_posts)"
    by (simp add: numeral_2_eq_2)
  show ?thesis
    by (rule conjI, rule exI[of _ c0]) (use c0 sl 1 2 in simp_all)
qed

end
